theory Spec2Isabelle
  imports Main
begin

section \<open>Python strings\<close>

text \<open>
  Strings are lists of characters. \<open>str.lower\<close> is modelled on the ASCII letters; every
  other character is left as it is. On a string of ASCII characters this is what
  \<open>str.lower\<close> computes. Python lowers letters beyond ASCII too, and one of them to an
  ASCII letter: U+212A KELVIN SIGN becomes \<open>k\<close>, so that in Python a header name spelt
  with that sign can match a name that holds a \<open>k\<close>. Of the names the task uses only
  \<open>WARC-Block-Digest\<close> holds one; the property that depends on it is stated for records
  whose header names are ASCII (\<open>ascii_names\<close> below).
\<close>

definition ascii_lower :: "char \<Rightarrow> char" where
  "ascii_lower c =
     (case map_of (zip ''ABCDEFGHIJKLMNOPQRSTUVWXYZ'' ''abcdefghijklmnopqrstuvwxyz'') c of
        None \<Rightarrow> c
      | Some l \<Rightarrow> l)"

definition lower :: "string \<Rightarrow> string" where
  "lower s = map ascii_lower s"

definition startswith :: "string \<Rightarrow> string \<Rightarrow> bool" where
  "startswith s p = (take (length p) s = p)"

definition LF :: char where
  "LF = CHR 0x0A"

text \<open>
  \<open>re.search('^<(.+)>$', url)\<close> followed by \<open>.group(1)\<close>: the result is the text of
  group 1 when the pattern matches and \<open>None\<close> when \<open>re.search\<close> returns \<open>None\<close>.
  Without flags \<open>^\<close> matches at the start only, \<open>.\<close> matches every character but the line
  feed, and \<open>$\<close> matches at the end of the string and also just before a line feed that is
  the last character. The two anchors fix where the closing bracket stands, so the greedy
  group has one possible extent.
\<close>

definition re_search_group1 :: "string \<Rightarrow> string option" where
  "re_search_group1 url =
     (case url of
        [] \<Rightarrow> None
      | c # rest \<Rightarrow>
          if c \<noteq> CHR ''<'' then None
          else
            let rest' = (if rest \<noteq> [] \<and> last rest = LF then butlast rest else rest)
            in if rest' \<noteq> [] \<and> last rest' = CHR ''>'' \<and> butlast rest' \<noteq> []
                  \<and> LF \<notin> set (butlast rest')
               then Some (butlast rest')
               else None)"

section \<open>The warcio interface\<close>

text \<open>
  The records come from the \<open>warcio\<close> library. A record (\<open>ArcWarcRecord\<close>) has a record
  type, the WARC headers (\<open>rec_headers\<close>, a \<open>StatusAndHeaders\<close> object holding a list of
  name and value pairs), the HTTP status line and header block (\<open>http_headers\<close>, carried
  along uninterpreted, \<open>None\<close> when the record has none) and the payload bytes.

  A header value is a string, or Python's \<open>None\<close> once \<open>replace_header\<close> was called with
  \<open>None\<close>; reading such a header gives \<open>None\<close>, as reading an absent one does.
\<close>

type_synonym headers = "(string \<times> string option) list"

record warc_record =
  rec_type :: "string option"
  rec_headers :: headers
  http_headers :: "string option"
  payload :: string

text \<open>
  \<open>StatusAndHeaders.get_header(name)\<close>: the value of the first header whose name equals
  \<open>name\<close> up to letter case, \<open>None\<close> when there is none.
\<close>

fun get_header :: "string \<Rightarrow> headers \<Rightarrow> string option" where
  "get_header name [] = None"
| "get_header name ((n, v) # hs) =
     (if lower n = lower name then v else get_header name hs)"

text \<open>
  \<open>StatusAndHeaders.replace_header(name, value)\<close> walks the list from its end and
  overwrites the value of the first header it meets whose name equals \<open>name\<close> up to letter
  case, that is the last such header of the list, keeping the spelling of its name; when
  there is none it appends \<open>(name, value)\<close>.
\<close>

fun replace_last :: "string \<Rightarrow> string option \<Rightarrow> headers \<Rightarrow> headers option" where
  "replace_last name val [] = None"
| "replace_last name val ((n, v) # hs) =
     (case replace_last name val hs of
        Some hs' \<Rightarrow> Some ((n, v) # hs')
      | None \<Rightarrow> if lower n = lower name then Some ((n, val) # hs) else None)"

definition replace_header :: "string \<Rightarrow> string option \<Rightarrow> headers \<Rightarrow> headers" where
  "replace_header name val hs =
     (case replace_last name val hs of
        Some hs' \<Rightarrow> hs'
      | None \<Rightarrow> hs @ [(name, val)])"

text \<open>
  \<open>StatusAndHeaders.remove_header(name)\<close> walks the list from its end likewise and deletes
  the first header it meets whose name equals \<open>name\<close> up to letter case; it deletes one
  header at most.
\<close>

fun remove_last :: "string \<Rightarrow> headers \<Rightarrow> headers option" where
  "remove_last name [] = None"
| "remove_last name ((n, v) # hs) =
     (case remove_last name hs of
        Some hs' \<Rightarrow> Some ((n, v) # hs')
      | None \<Rightarrow> if lower n = lower name then Some hs else None)"

definition remove_header :: "string \<Rightarrow> headers \<Rightarrow> headers" where
  "remove_header name hs = (case remove_last name hs of Some hs' \<Rightarrow> hs' | None \<Rightarrow> hs)"

text \<open>
  \<open>WARCWriter.create_warc_record(uri, record_type, warc_headers=..., http_headers=...)\<close>
  as \<open>Deduplicate\<close> calls it: no payload is passed, so the record gets an empty one, and
  the header object that is passed is not empty (see \<open>revisit_headers_not_empty\<close> below),
  so the library takes it as it is and builds no headers of its own from \<open>uri\<close>.
\<close>

definition create_warc_record ::
  "string option \<Rightarrow> string \<Rightarrow> headers \<Rightarrow> string option \<Rightarrow> warc_record" where
  "create_warc_record uri record_type warc_headers http =
     \<lparr>rec_type = Some record_type, rec_headers = warc_headers, http_headers = http,
      payload = []\<rparr>"

section \<open>The Deduplicate task\<close>

datatype error = AttributeError

type_synonym index_entry = "string option \<times> string option \<times> string option"

type_synonym digest_index = "string option \<rightharpoonup> index_entry"

record item =
  item_dir :: string
  warc_file_base :: string

definition output_filename :: "item \<Rightarrow> string" where
  "output_filename it = item_dir it @ ''/'' @ warc_file_base it @ ''-deduplicated.warc.gz''"

text \<open>
  Lines 207 to 210 of \<open>process\<close>, on the value of the variable \<open>url\<close>: an absent URI and
  one that does not start with \<open><\<close> stay; one that starts with \<open><\<close> is replaced by group 1
  of the pattern, and \<open>.group\<close> on the \<open>None\<close> of a failed search raises
  \<open>AttributeError\<close>.
\<close>

definition unwrap_uri :: "string option \<Rightarrow> error + string option" where
  "unwrap_uri url =
     (case url of
        None \<Rightarrow> Inr None
      | Some u \<Rightarrow>
          if startswith u ''<'' then
            (case re_search_group1 u of
               None \<Rightarrow> Inl AttributeError
             | Some g \<Rightarrow> Inr (Some g))
          else Inr (Some u))"

text \<open>Lines 207 to 211: the same on the record, whose header is rewritten in place.\<close>

definition unwrap_target_uri :: "warc_record \<Rightarrow> error + warc_record" where
  "unwrap_target_uri record =
     (case get_header ''WARC-Target-URI'' (rec_headers record) of
        None \<Rightarrow> Inr record
      | Some url \<Rightarrow>
          if startswith url ''<'' then
            (case re_search_group1 url of
               None \<Rightarrow> Inl AttributeError
             | Some g \<Rightarrow>
                 Inr (record\<lparr>rec_headers :=
                        replace_header ''WARC-Target-URI'' (Some g) (rec_headers record)\<rparr>))
          else Inr record)"

text \<open>\<open>_record_response_to_revisit\<close>, lines 237 to 255.\<close>

definition revisit_headers ::
  "headers \<Rightarrow> index_entry \<Rightarrow> headers" where
  "revisit_headers hs duplicate =
     (case duplicate of (d0, d1, d2) \<Rightarrow>
        remove_header ''Content-Length''
          (remove_header ''WARC-Block-Digest''
            (replace_header ''WARC-Profile''
               (Some ''http://netpreserve.org/warc/1.0/revisit/identical-payload-digest'')
              (replace_header ''WARC-Truncated'' (Some ''length'')
                (replace_header ''WARC-Type'' (Some ''revisit'')
                  (replace_header ''WARC-Refers-To-Target-URI'' d2
                    (replace_header ''WARC-Refers-To-Date'' d1
                      (replace_header ''WARC-Refers-To'' d0 hs))))))))"

definition record_response_to_revisit ::
  "warc_record \<Rightarrow> index_entry \<Rightarrow> warc_record" where
  "record_response_to_revisit record duplicate =
     (let warc_headers = revisit_headers (rec_headers record) duplicate
      in create_warc_record (get_header ''WARC-Target-URI'' warc_headers) ''revisit''
           warc_headers (http_headers record))"

text \<open>
  The body of the loop of \<open>process\<close>, lines 207 to 235, for one record: the result is the
  exception raised, or the digest index after the record together with the record handed
  to \<open>writer.write_record\<close>. The key of the index is what \<open>get_header\<close> returns, so it is
  \<open>None\<close> for a response without a payload digest.
\<close>

definition process_record ::
  "string \<Rightarrow> digest_index \<Rightarrow> warc_record \<Rightarrow> error + (digest_index \<times> warc_record)" where
  "process_record out_name digests record0 =
     (case unwrap_target_uri record0 of
        Inl e \<Rightarrow> Inl e
      | Inr record \<Rightarrow>
          if get_header ''WARC-Type'' (rec_headers record) = Some ''response'' then
            (let digest = get_header ''WARC-Payload-Digest'' (rec_headers record)
             in case digests digest of
                  Some duplicate \<Rightarrow> Inr (digests, record_response_to_revisit record duplicate)
                | None \<Rightarrow>
                    Inr (digests(digest \<mapsto>
                           (get_header ''WARC-Record-ID'' (rec_headers record),
                            get_header ''WARC-Date'' (rec_headers record),
                            get_header ''WARC-Target-URI'' (rec_headers record))),
                         record))
          else if get_header ''WARC-Type'' (rec_headers record) = Some ''warcinfo'' then
            Inr (digests,
                 record\<lparr>rec_headers :=
                   replace_header ''WARC-Filename'' (Some out_name) (rec_headers record)\<rparr>)
          else Inr (digests, record))"

text \<open>
  The loop over the records of the input file, in file order. The state is the digest
  index, the records handed to \<open>writer.write_record\<close> so far, in the order of the
  calls, and the exception that ended the loop, if one did: nothing in \<open>process\<close>
  catches it, so no later record is read or written.
\<close>

record pass_state =
  digests :: digest_index
  written :: "warc_record list"
  raised :: "error option"

fun process_loop :: "string \<Rightarrow> pass_state \<Rightarrow> warc_record list \<Rightarrow> pass_state" where
  "process_loop out_name s [] = s"
| "process_loop out_name s (record # rest) =
     (case process_record out_name (digests s) record of
        Inl e \<Rightarrow> s\<lparr>raised := Some e\<rparr>
      | Inr (digests', out) \<Rightarrow>
          process_loop out_name (s\<lparr>digests := digests', written := written s @ [out]\<rparr>) rest)"

text \<open>
  \<open>process\<close> starts with an empty index (line 198) and a writer that has written
  nothing, and runs the loop over the records that \<open>ArchiveIterator\<close> yields for the
  input file.
\<close>

definition initial_state :: pass_state where
  "initial_state = \<lparr>digests = Map.empty, written = [], raised = None\<rparr>"

definition process :: "item \<Rightarrow> warc_record list \<Rightarrow> pass_state" where
  "process it records = process_loop (output_filename it) initial_state records"

section \<open>Notions used to state the properties\<close>

text \<open>How many headers of a list carry a name, up to letter case.\<close>

definition header_count :: "string \<Rightarrow> headers \<Rightarrow> nat" where
  "header_count name hs = length (filter (\<lambda>h. lower (fst h) = lower name) hs)"

text \<open>The headers of a list whose names are not among the given ones, in their order.\<close>

definition other_headers :: "string list \<Rightarrow> headers \<Rightarrow> headers" where
  "other_headers names hs = filter (\<lambda>h. lower (fst h) \<notin> set (map lower names)) hs"

text \<open>
  A response record, its payload digest as the pass reads it, and the triple the pass
  stores in the index for it.
\<close>

definition is_response :: "warc_record \<Rightarrow> bool" where
  "is_response r = (get_header ''WARC-Type'' (rec_headers r) = Some ''response'')"

definition payload_digest :: "warc_record \<Rightarrow> string option" where
  "payload_digest r = get_header ''WARC-Payload-Digest'' (rec_headers r)"

definition entry_of :: "warc_record \<Rightarrow> index_entry" where
  "entry_of r =
     (get_header ''WARC-Record-ID'' (rec_headers r),
      get_header ''WARC-Date'' (rec_headers r),
      get_header ''WARC-Target-URI'' (rec_headers r))"

text \<open>A response record that carries the digest \<open>k\<close> (\<open>None\<close>: that carries none).\<close>

definition occurrence :: "string option \<Rightarrow> warc_record \<Rightarrow> bool" where
  "occurrence k r = (is_response r \<and> payload_digest r = k)"

text \<open>
  The names that \<open>_record_response_to_revisit\<close> sets or removes, and the condition that
  none of a list of names occurs more than once among the headers.
\<close>

definition revisit_names :: "string list" where
  "revisit_names =
     [''WARC-Refers-To'', ''WARC-Refers-To-Date'', ''WARC-Refers-To-Target-URI'',
      ''WARC-Type'', ''WARC-Truncated'', ''WARC-Profile'', ''WARC-Block-Digest'',
      ''Content-Length'']"

definition no_repeated :: "string list \<Rightarrow> headers \<Rightarrow> bool" where
  "no_repeated names hs = list_all (\<lambda>n. header_count n hs \<le> 1) names"

text \<open>The header names of a list consist of ASCII characters.\<close>

definition ascii_names :: "headers \<Rightarrow> bool" where
  "ascii_names hs = list_all (\<lambda>h. list_all (\<lambda>c. of_char c < (128::nat)) (fst h)) hs"

text \<open>The unwrap of lines 207 to 210 applied to its own result.\<close>

definition unwrap_uri_twice :: "string option \<Rightarrow> error + string option" where
  "unwrap_uri_twice url = (case unwrap_uri url of Inl e \<Rightarrow> Inl e | Inr v \<Rightarrow> unwrap_uri v)"

subsection \<open>Example inputs\<close>

text \<open>
  An item, and records as \<open>ArchiveIterator\<close> yields them for a file written by Wget, which
  wraps the target URI in angle brackets: three responses with the payload digests A, B
  and A, a \<open>warcinfo\<close> record, and a request whose target URI is an opening bracket alone.
\<close>

definition example_item :: item where
  "example_item = \<lparr>item_dir = ''d'', warc_file_base = ''w''\<rparr>"

definition request_with_open_bracket :: warc_record where
  "request_with_open_bracket =
     \<lparr>rec_type = Some ''request'',
      rec_headers = [(''WARC-Type'', Some ''request''), (''WARC-Target-URI'', Some ''<'')],
      http_headers = Some ''GET / HTTP/1.1'', payload = []\<rparr>"

definition response_1 :: warc_record where
  "response_1 =
     \<lparr>rec_type = Some ''response'',
      rec_headers =
        [(''WARC-Type'', Some ''response''),
         (''WARC-Record-ID'', Some ''<urn:uuid:1>''),
         (''WARC-Date'', Some ''2019-06-22T01:00:00Z''),
         (''WARC-Target-URI'', Some ''<http://a/>''),
         (''WARC-Payload-Digest'', Some ''sha1:A''),
         (''WARC-Block-Digest'', Some ''sha1:P''),
         (''Content-Length'', Some ''20'')],
      http_headers = Some ''HTTP/1.1 200 OK'', payload = ''hello''\<rparr>"

definition response_2 :: warc_record where
  "response_2 =
     \<lparr>rec_type = Some ''response'',
      rec_headers =
        [(''WARC-Type'', Some ''response''),
         (''WARC-Record-ID'', Some ''<urn:uuid:2>''),
         (''WARC-Date'', Some ''2019-06-22T02:00:00Z''),
         (''WARC-Target-URI'', Some ''<http://b/>''),
         (''WARC-Payload-Digest'', Some ''sha1:B''),
         (''WARC-Block-Digest'', Some ''sha1:Q''),
         (''Content-Length'', Some ''20'')],
      http_headers = Some ''HTTP/1.1 200 OK'', payload = ''world''\<rparr>"

definition response_3 :: warc_record where
  "response_3 =
     \<lparr>rec_type = Some ''response'',
      rec_headers =
        [(''WARC-Type'', Some ''response''),
         (''WARC-Record-ID'', Some ''<urn:uuid:3>''),
         (''WARC-Date'', Some ''2019-06-22T03:00:00Z''),
         (''WARC-Target-URI'', Some ''<http://c/>''),
         (''WARC-Payload-Digest'', Some ''sha1:A''),
         (''WARC-Block-Digest'', Some ''sha1:R''),
         (''Content-Length'', Some ''20'')],
      http_headers = Some ''HTTP/1.1 200 OK'', payload = ''hello''\<rparr>"

definition warcinfo_1 :: warc_record where
  "warcinfo_1 =
     \<lparr>rec_type = Some ''warcinfo'',
      rec_headers =
        [(''WARC-Type'', Some ''warcinfo''),
         (''WARC-Record-ID'', Some ''<urn:uuid:0>''),
         (''WARC-Filename'', Some ''w.warc.gz''),
         (''Content-Length'', Some ''14'')],
      http_headers = None, payload = ''software: Wget''\<rparr>"

text \<open>
  Less usual records: a \<open>warcinfo\<close> record with a bracketed target URI, two responses
  without a payload digest, a response in which \<open>Content-Length\<close> occurs twice, and
  one in which \<open>WARC-Type\<close> does.
\<close>

definition warcinfo_with_target_uri :: warc_record where
  "warcinfo_with_target_uri =
     \<lparr>rec_type = Some ''warcinfo'',
      rec_headers =
        [(''WARC-Type'', Some ''warcinfo''),
         (''WARC-Filename'', Some ''w.warc.gz''),
         (''WARC-Target-URI'', Some ''<urn:x>'')],
      http_headers = None, payload = ''software: Wget''\<rparr>"

definition digestless_1 :: warc_record where
  "digestless_1 =
     \<lparr>rec_type = Some ''response'',
      rec_headers =
        [(''WARC-Type'', Some ''response''),
         (''WARC-Record-ID'', Some ''<urn:uuid:7>''),
         (''WARC-Date'', Some ''2019-06-22T07:00:00Z''),
         (''WARC-Target-URI'', Some ''http://p/''),
         (''Content-Length'', Some ''20'')],
      http_headers = Some ''HTTP/1.1 200 OK'', payload = ''first page''\<rparr>"

definition digestless_2 :: warc_record where
  "digestless_2 =
     \<lparr>rec_type = Some ''response'',
      rec_headers =
        [(''WARC-Type'', Some ''response''),
         (''WARC-Record-ID'', Some ''<urn:uuid:8>''),
         (''WARC-Date'', Some ''2019-06-22T08:00:00Z''),
         (''WARC-Target-URI'', Some ''http://q/''),
         (''Content-Length'', Some ''20'')],
      http_headers = Some ''HTTP/1.1 200 OK'', payload = ''another page''\<rparr>"

definition response_3_repeated :: warc_record where
  "response_3_repeated =
     \<lparr>rec_type = Some ''response'',
      rec_headers =
        [(''WARC-Type'', Some ''response''),
         (''WARC-Record-ID'', Some ''<urn:uuid:3>''),
         (''WARC-Date'', Some ''2019-06-22T03:00:00Z''),
         (''WARC-Target-URI'', Some ''<http://c/>''),
         (''WARC-Payload-Digest'', Some ''sha1:A''),
         (''Content-Length'', Some ''20''),
         (''Content-Length'', Some ''20'')],
      http_headers = Some ''HTTP/1.1 200 OK'', payload = ''hello''\<rparr>"

definition response_3_two_types :: warc_record where
  "response_3_two_types =
     \<lparr>rec_type = Some ''response'',
      rec_headers =
        [(''WARC-Type'', Some ''response''),
         (''WARC-Type'', Some ''response''),
         (''WARC-Record-ID'', Some ''<urn:uuid:3>''),
         (''WARC-Date'', Some ''2019-06-22T03:00:00Z''),
         (''WARC-Target-URI'', Some ''<http://c/>''),
         (''WARC-Payload-Digest'', Some ''sha1:A''),
         (''WARC-Block-Digest'', Some ''sha1:R''),
         (''Content-Length'', Some ''20'')],
      http_headers = Some ''HTTP/1.1 200 OK'', payload = ''hello''\<rparr>"

text \<open>What the pass writes for the three responses.\<close>

definition response_1_written :: warc_record where
  "response_1_written =
     \<lparr>rec_type = Some ''response'',
      rec_headers =
        [(''WARC-Type'', Some ''response''),
         (''WARC-Record-ID'', Some ''<urn:uuid:1>''),
         (''WARC-Date'', Some ''2019-06-22T01:00:00Z''),
         (''WARC-Target-URI'', Some ''http://a/''),
         (''WARC-Payload-Digest'', Some ''sha1:A''),
         (''WARC-Block-Digest'', Some ''sha1:P''),
         (''Content-Length'', Some ''20'')],
      http_headers = Some ''HTTP/1.1 200 OK'', payload = ''hello''\<rparr>"

definition response_2_written :: warc_record where
  "response_2_written =
     \<lparr>rec_type = Some ''response'',
      rec_headers =
        [(''WARC-Type'', Some ''response''),
         (''WARC-Record-ID'', Some ''<urn:uuid:2>''),
         (''WARC-Date'', Some ''2019-06-22T02:00:00Z''),
         (''WARC-Target-URI'', Some ''http://b/''),
         (''WARC-Payload-Digest'', Some ''sha1:B''),
         (''WARC-Block-Digest'', Some ''sha1:Q''),
         (''Content-Length'', Some ''20'')],
      http_headers = Some ''HTTP/1.1 200 OK'', payload = ''world''\<rparr>"

definition response_3_written :: warc_record where
  "response_3_written =
     \<lparr>rec_type = Some ''revisit'',
      rec_headers =
        [(''WARC-Type'', Some ''revisit''),
         (''WARC-Record-ID'', Some ''<urn:uuid:3>''),
         (''WARC-Date'', Some ''2019-06-22T03:00:00Z''),
         (''WARC-Target-URI'', Some ''http://c/''),
         (''WARC-Payload-Digest'', Some ''sha1:A''),
         (''WARC-Refers-To'', Some ''<urn:uuid:1>''),
         (''WARC-Refers-To-Date'', Some ''2019-06-22T01:00:00Z''),
         (''WARC-Refers-To-Target-URI'', Some ''http://a/''),
         (''WARC-Truncated'', Some ''length''),
         (''WARC-Profile'',
          Some ''http://netpreserve.org/warc/1.0/revisit/identical-payload-digest'')],
      http_headers = Some ''HTTP/1.1 200 OK'', payload = []\<rparr>"

section \<open>Headers\<close>

lemma header_count_Nil [simp]: "header_count name [] = 0"
  by (simp add: header_count_def)

lemma header_count_Cons [simp]:
  "header_count name ((n, v) # hs) =
     (if lower n = lower name then Suc (header_count name hs) else header_count name hs)"
  by (simp add: header_count_def)

lemma header_count_append [simp]:
  "header_count name (hs @ hs') = header_count name hs + header_count name hs'"
  by (simp add: header_count_def)

lemma header_count_cong: "lower n = lower m \<Longrightarrow> header_count n hs = header_count m hs"
  by (simp add: header_count_def)

lemma replace_last_None: "replace_last name val hs = None \<longleftrightarrow> header_count name hs = 0"
  by (induction hs) (auto split: option.splits if_splits)

lemma remove_last_None: "remove_last name hs = None \<longleftrightarrow> header_count name hs = 0"
  by (induction hs) (auto split: option.splits if_splits)

lemma get_header_None: "header_count name hs = 0 \<Longrightarrow> get_header name hs = None"
  by (induction hs) (auto split: if_splits)

lemma get_header_append:
  "get_header name (hs @ hs') =
     (if header_count name hs = 0 then get_header name hs' else get_header name hs)"
  by (induction hs) auto

lemma replace_last_get_other:
  "replace_last m val hs = Some hs' \<Longrightarrow> lower n \<noteq> lower m \<Longrightarrow> get_header n hs' = get_header n hs"
  by (induction hs arbitrary: hs') (auto split: option.splits if_splits)

lemma replace_last_count:
  "replace_last m val hs = Some hs' \<Longrightarrow> header_count n hs' = header_count n hs"
  by (induction hs arbitrary: hs') (auto split: option.splits if_splits)

lemma replace_last_get_same:
  "replace_last m val hs = Some hs' \<Longrightarrow> header_count m hs \<le> 1 \<Longrightarrow> get_header m hs' = val"
proof (induction hs arbitrary: hs')
  case Nil
  then show ?case by simp
next
  case (Cons h hs)
  obtain n v where h: "h = (n, v)" by (cases h)
  show ?case
  proof (cases "replace_last m val hs")
    case None
    with Cons.prems h show ?thesis by (auto split: if_splits)
  next
    case (Some hs'')
    then have pos: "header_count m hs \<noteq> 0" using replace_last_None [of m val hs] by simp
    with Cons.prems h have ne: "lower n \<noteq> lower m" by (auto split: if_splits)
    with Cons.prems h Some have "header_count m hs \<le> 1" and "hs' = (n, v) # hs''" by auto
    with Cons.IH [OF Some] ne show ?thesis by simp
  qed
qed

lemma get_header_replace_header_other:
  "lower n \<noteq> lower m \<Longrightarrow> get_header n (replace_header m val hs) = get_header n hs"
  by (auto simp: replace_header_def get_header_append replace_last_get_other get_header_None
        split: option.splits)

lemma get_header_replace_header_same:
  "header_count m hs \<le> 1 \<Longrightarrow> get_header m (replace_header m val hs) = val"
  by (auto simp: replace_header_def get_header_append replace_last_get_same replace_last_None split: option.splits)

lemma header_count_replace_header:
  "header_count n (replace_header m val hs) =
     (if lower n = lower m \<and> header_count m hs = 0 then 1 else header_count n hs)"
proof (cases "replace_last m val hs")
  case None
  then have z: "header_count m hs = 0" by (simp add: replace_last_None)
  show ?thesis
  proof (cases "lower n = lower m")
    case True
    with z None header_count_cong [OF True, of hs] show ?thesis
      by (simp add: replace_header_def)
  next
    case False
    with None show ?thesis by (simp add: replace_header_def)
  qed
next
  case (Some hs')
  then have "header_count m hs \<noteq> 0" using replace_last_None [of m val hs] by simp
  with Some show ?thesis by (simp add: replace_header_def replace_last_count)
qed

lemma remove_last_get_other:
  "remove_last m hs = Some hs' \<Longrightarrow> lower n \<noteq> lower m \<Longrightarrow> get_header n hs' = get_header n hs"
  by (induction hs arbitrary: hs') (auto split: option.splits if_splits)

lemma remove_last_count_same:
  "remove_last m hs = Some hs' \<Longrightarrow> Suc (header_count m hs') = header_count m hs"
  by (induction hs arbitrary: hs') (auto split: option.splits if_splits)

lemma remove_last_count_other:
  "remove_last m hs = Some hs' \<Longrightarrow> lower n \<noteq> lower m \<Longrightarrow>
     header_count n hs' = header_count n hs"
  by (induction hs arbitrary: hs') (auto split: option.splits if_splits)

lemma get_header_remove_header_other:
  "lower n \<noteq> lower m \<Longrightarrow> get_header n (remove_header m hs) = get_header n hs"
  by (auto simp: remove_header_def remove_last_get_other split: option.splits)

lemma header_count_remove_header:
  "header_count n (remove_header m hs) =
     (if lower n = lower m then header_count n hs - 1 else header_count n hs)"
proof (cases "lower n = lower m")
  case True
  show ?thesis
  proof (cases "remove_last m hs")
    case None
    then have "header_count m hs = 0" by (simp add: remove_last_None)
    with None True header_count_cong [OF True, of hs] show ?thesis
      by (simp add: remove_header_def)
  next
    case (Some hs')
    from remove_last_count_same [OF Some] have "header_count m hs' = header_count m hs - 1"
      by simp
    with Some True header_count_cong [OF True] show ?thesis
      by (simp add: remove_header_def)
  qed
next
  case False
  then show ?thesis
    by (auto simp: remove_header_def remove_last_count_other split: option.splits)
qed

lemma replace_last_other_headers:
  "replace_last m val hs = Some hs' \<Longrightarrow> lower m \<in> set (map lower names) \<Longrightarrow>
     other_headers names hs' = other_headers names hs"
  by (induction hs arbitrary: hs') (auto split: option.splits if_splits simp: other_headers_def)

lemma other_headers_replace_header:
  "lower m \<in> set (map lower names) \<Longrightarrow>
     other_headers names (replace_header m val hs) = other_headers names hs"
  by (auto simp: replace_header_def replace_last_other_headers split: option.splits)
     (simp add: other_headers_def)

lemma remove_last_other_headers:
  "remove_last m hs = Some hs' \<Longrightarrow> lower m \<in> set (map lower names) \<Longrightarrow>
     other_headers names hs' = other_headers names hs"
  by (induction hs arbitrary: hs') (auto split: option.splits if_splits simp: other_headers_def)

lemma other_headers_remove_header:
  "lower m \<in> set (map lower names) \<Longrightarrow>
     other_headers names (remove_header m hs) = other_headers names hs"
  by (auto simp: remove_header_def remove_last_other_headers split: option.splits)

section \<open>The loop\<close>

lemma lower_names:
  "lower ''WARC-Target-URI'' = ''warc-target-uri''"
  "lower ''WARC-Type'' = ''warc-type''"
  "lower ''WARC-Payload-Digest'' = ''warc-payload-digest''"
  "lower ''WARC-Record-ID'' = ''warc-record-id''"
  "lower ''WARC-Date'' = ''warc-date''"
  "lower ''WARC-Filename'' = ''warc-filename''"
  "lower ''WARC-Refers-To'' = ''warc-refers-to''"
  "lower ''WARC-Refers-To-Date'' = ''warc-refers-to-date''"
  "lower ''WARC-Refers-To-Target-URI'' = ''warc-refers-to-target-uri''"
  "lower ''WARC-Truncated'' = ''warc-truncated''"
  "lower ''WARC-Profile'' = ''warc-profile''"
  "lower ''WARC-Block-Digest'' = ''warc-block-digest''"
  "lower ''Content-Length'' = ''content-length''"
  by (simp_all add: lower_def ascii_lower_def)

lemma unwrap_target_uri_cases:
  "unwrap_target_uri r = Inl AttributeError \<or> unwrap_target_uri r = Inr r \<or>
   (\<exists>url g. get_header ''WARC-Target-URI'' (rec_headers r) = Some url \<and> startswith url ''<''
      \<and> re_search_group1 url = Some g
      \<and> unwrap_target_uri r =
          Inr (r\<lparr>rec_headers := replace_header ''WARC-Target-URI'' (Some g) (rec_headers r)\<rparr>))"
  by (auto simp: unwrap_target_uri_def split: option.splits)

lemma unwrap_target_uri_get_other:
  assumes "unwrap_target_uri r = Inr r'" and "lower n \<noteq> lower ''WARC-Target-URI''"
  shows "get_header n (rec_headers r') = get_header n (rec_headers r)"
  using assms
  by (auto simp: unwrap_target_uri_def get_header_replace_header_other
      split: option.splits if_splits)

lemma unwrap_target_uri_fields:
  assumes "unwrap_target_uri r = Inr r'"
  shows "rec_type r' = rec_type r \<and> http_headers r' = http_headers r \<and> payload r' = payload r"
  using assms by (auto simp: unwrap_target_uri_def split: option.splits if_splits)

lemma get_header_Some_count: "get_header n hs = Some v \<Longrightarrow> header_count n hs \<noteq> 0"
  using get_header_None [of n hs] by auto

lemma unwrap_target_uri_count:
  assumes "unwrap_target_uri r = Inr r'"
  shows "header_count n (rec_headers r') = header_count n (rec_headers r)"
  using assms
  by (auto simp: unwrap_target_uri_def header_count_replace_header
      split: option.splits if_splits dest: get_header_Some_count)

lemma process_loop_append:
  "raised s = None \<Longrightarrow>
   process_loop fn s (xs @ ys) =
     (if raised (process_loop fn s xs) = None
      then process_loop fn (process_loop fn s xs) ys
      else process_loop fn s xs)"
  by (induction xs arbitrary: s) (auto split: sum.splits)

lemma process_loop_raised_start:
  "raised s \<noteq> None \<Longrightarrow> raised (process_loop fn s xs) \<noteq> None"
  by (induction xs arbitrary: s) (auto split: sum.splits)

lemma process_loop_written_extends:
  "\<exists>ws. written (process_loop fn s xs) = written s @ ws \<and> length ws \<le> length xs"
proof (induction xs arbitrary: s)
  case Nil
  then show ?case by simp
next
  case (Cons x xs)
  show ?case
  proof (cases "process_record fn (digests s) x")
    case (Inl e)
    then show ?thesis by simp
  next
    case (Inr p)
    obtain d out where p: "p = (d, out)" by (cases p)
    let ?s = "s\<lparr>digests := d, written := written s @ [out]\<rparr>"
    from Cons.IH [of ?s] obtain ws where
      "written (process_loop fn ?s xs) = written ?s @ ws" and "length ws \<le> length xs"
      by blast
    with Inr p have "written (process_loop fn s (x # xs)) = written s @ (out # ws)
        \<and> length (out # ws) \<le> length (x # xs)"
      by simp
    then show ?thesis by blast
  qed
qed

lemma process_loop_written_prefix:
  "take (length (written s)) (written (process_loop fn s xs)) = written s"
  using process_loop_written_extends [of fn s xs] by auto

lemma process_loop_length_le:
  "length (written (process_loop fn s xs)) \<le> length (written s) + length xs"
  using process_loop_written_extends [of fn s xs] by auto

lemma process_loop_length_completed:
  "raised s = None \<Longrightarrow> raised (process_loop fn s xs) = None \<Longrightarrow>
   length (written (process_loop fn s xs)) = length (written s) + length xs"
  by (induction xs arbitrary: s) (auto split: sum.splits)

lemma process_loop_length_raised:
  "raised s = None \<Longrightarrow> raised (process_loop fn s xs) \<noteq> None \<Longrightarrow>
   length (written (process_loop fn s xs)) < length (written s) + length xs"
proof (induction xs arbitrary: s)
  case Nil
  then show ?case by simp
next
  case (Cons x xs)
  show ?case
  proof (cases "process_record fn (digests s) x")
    case (Inl e)
    then show ?thesis by simp
  next
    case (Inr p)
    obtain d out where p: "p = (d, out)" by (cases p)
    let ?s = "s\<lparr>digests := d, written := written s @ [out]\<rparr>"
    have "raised ?s = None" using Cons.prems by simp
    moreover have "raised (process_loop fn ?s xs) \<noteq> None" using Cons.prems Inr p by simp
    ultimately have "length (written (process_loop fn ?s xs)) < length (written ?s) + length xs"
      by (rule Cons.IH)
    with Inr p show ?thesis by simp
  qed
qed

section \<open>Unwrapping the target URI\<close>

lemma re_search_group1_bracketed:
  assumes "g \<noteq> []" and "LF \<notin> set g"
  shows "re_search_group1 (''<'' @ g @ ''>'') = Some g"
    and "re_search_group1 (''<'' @ g @ ''>'' @ [LF]) = Some g"
proof -
  have lf: "CHR ''>'' \<noteq> LF" by (simp add: LF_def)
  show "re_search_group1 (''<'' @ g @ ''>'') = Some g"
    using assms lf by (simp add: re_search_group1_def Let_def butlast_append)
  have "butlast (g @ [CHR ''>'', LF]) = g @ ''>''"
    by (simp add: butlast_append)
  then show "re_search_group1 (''<'' @ g @ ''>'' @ [LF]) = Some g"
    using assms lf by (simp add: re_search_group1_def Let_def butlast_append)
qed

lemma re_search_group1_SomeD:
  assumes "re_search_group1 url = Some g"
  shows "(url = ''<'' @ g @ ''>'' \<or> url = ''<'' @ g @ ''>'' @ [LF]) \<and> g \<noteq> [] \<and> LF \<notin> set g"
proof -
  from assms obtain rest where url: "url = CHR ''<'' # rest"
    by (cases url) (auto simp: re_search_group1_def split: if_splits)
  define rest' where "rest' = (if rest \<noteq> [] \<and> last rest = LF then butlast rest else rest)"
  from assms url have m: "rest' \<noteq> []" "last rest' = CHR ''>''" "butlast rest' \<noteq> []"
    "LF \<notin> set (butlast rest')" "g = butlast rest'"
    by (auto simp: re_search_group1_def Let_def rest'_def split: if_splits)
  from m(1,2,5) have r': "rest' = g @ ''>''"
    by (metis append_butlast_last_id)
  have "rest = rest' \<or> rest = rest' @ [LF]"
  proof (cases "rest \<noteq> [] \<and> last rest = LF")
    case True
    then have "rest = butlast rest @ [LF]" by (metis append_butlast_last_id)
    with True show ?thesis by (simp add: rest'_def)
  next
    case False
    then show ?thesis by (auto simp: rest'_def)
  qed
  with url r' m show ?thesis by auto
qed

lemma re_search_group1_Some:
  "re_search_group1 url = Some g \<longleftrightarrow>
     (url = ''<'' @ g @ ''>'' \<or> url = ''<'' @ g @ ''>'' @ [LF]) \<and> g \<noteq> [] \<and> LF \<notin> set g"
  using re_search_group1_SomeD [of url g] re_search_group1_bracketed [of g] by blast

lemma unwrap_target_uri_by_value:
  "unwrap_target_uri r =
     (case unwrap_uri (get_header ''WARC-Target-URI'' (rec_headers r)) of
        Inl e \<Rightarrow> Inl e
      | Inr v \<Rightarrow>
          Inr (case get_header ''WARC-Target-URI'' (rec_headers r) of
                 None \<Rightarrow> r
               | Some url \<Rightarrow>
                   if startswith url ''<''
                   then r\<lparr>rec_headers := replace_header ''WARC-Target-URI'' v (rec_headers r)\<rparr>
                   else r))"
  by (simp add: unwrap_target_uri_def unwrap_uri_def split: option.splits)

text \<open>
  C4 (as stated): a URI not wrapped in angle brackets is returned unchanged, one of the form
  \<open><...>\<close> is returned without the brackets, and unwrapping twice gives what unwrapping
  once gives. The code strips one layer of brackets: on \<open><<u>>\<close> the second unwrap strips
  another one, and a value that starts with \<open><\<close> without matching the pattern (no closing
  bracket, or nothing between the brackets) raises instead of being returned.
\<close>

theorem unwrap_uri_not_idempotent:
  "unwrap_uri (Some ''<<u>>'') = Inr (Some ''<u>'')
   \<and> unwrap_uri_twice (Some ''<<u>>'') = Inr (Some ''u'')
   \<and> unwrap_uri_twice (Some ''<<u>>'') \<noteq> unwrap_uri (Some ''<<u>>'')
   \<and> unwrap_uri (Some ''<u'') = Inl AttributeError
   \<and> unwrap_uri (Some ''<>'') = Inl AttributeError"
  by (simp add: unwrap_uri_twice_def unwrap_uri_def startswith_def re_search_group1_def LF_def)

text \<open>
  C4 (amended): a URI that does not start with \<open><\<close> is returned unchanged; \<open><body>\<close> with a
  body that is not empty and holds no line feed is returned as \<open>body\<close>; and unwrapping
  twice gives what unwrapping once gives whenever the first result does not start with
  \<open><\<close> itself.
\<close>

theorem unwrap_uri_single_layer:
  "(\<not> startswith u ''<'' \<longrightarrow> unwrap_uri (Some u) = Inr (Some u))
   \<and> (body \<noteq> [] \<and> LF \<notin> set body \<longrightarrow> unwrap_uri (Some (''<'' @ body @ ''>'')) = Inr (Some body))
   \<and> (unwrap_uri (Some w) = Inr (Some v) \<and> \<not> startswith v ''<''
        \<longrightarrow> unwrap_uri_twice (Some w) = unwrap_uri (Some w))"
proof (intro conjI impI)
  assume "\<not> startswith u ''<''"
  then show "unwrap_uri (Some u) = Inr (Some u)" by (simp add: unwrap_uri_def)
next
  assume "body \<noteq> [] \<and> LF \<notin> set body"
  then have "re_search_group1 (''<'' @ body @ ''>'') = Some body"
    using re_search_group1_bracketed(1) [of body] by blast
  then show "unwrap_uri (Some (''<'' @ body @ ''>'')) = Inr (Some body)"
    by (simp add: unwrap_uri_def startswith_def)
next
  assume "unwrap_uri (Some w) = Inr (Some v) \<and> \<not> startswith v ''<''"
  then show "unwrap_uri_twice (Some w) = unwrap_uri (Some w)"
    by (simp add: unwrap_uri_twice_def unwrap_uri_def)
qed

theorem unwrap_uri_single_layer_witness:
  "unwrap_uri (Some ''http://a/'') = Inr (Some ''http://a/'')
   \<and> unwrap_uri (Some ''<http://a/>'') = Inr (Some ''http://a/'')
   \<and> unwrap_uri_twice (Some ''<http://a/>'') = unwrap_uri (Some ''<http://a/>'')"
  using unwrap_uri_single_layer [of "''http://a/''" "''http://a/''" "''<http://a/>''" "''http://a/''"]
  by (simp add: startswith_def LF_def unwrap_uri_def re_search_group1_def)

section \<open>Running the pass on the examples\<close>

lemmas run_defs =
  process_def initial_state_def process_record_def unwrap_target_uri_def
  record_response_to_revisit_def revisit_headers_def create_warc_record_def
  replace_header_def remove_header_def startswith_def re_search_group1_def LF_def
  output_filename_def lower_names Let_def

text \<open>The scenario of three responses with the digests A, B, A.\<close>

lemma scenario_run:
  "raised (process example_item [response_1, response_2, response_3]) = None"
  "written (process example_item [response_1, response_2, response_3])
     = [response_1_written, response_2_written, response_3_written]"
  by (simp_all add: run_defs example_item_def response_1_def response_2_def response_3_def
      response_1_written_def response_2_written_def response_3_written_def)

lemma scenario_occurrences:
  "filter (\<lambda>i. occurrence (Some ''sha1:A'') ([response_1, response_2, response_3] ! i))
     [0..<length [response_1, response_2, response_3]] = [0, 2]"
  by (simp add: upt_rec occurrence_def is_response_def payload_digest_def
      response_1_def response_2_def response_3_def lower_names)

section \<open>The loop, record by record\<close>

lemma raised_initial [simp]: "raised initial_state = None"
  and written_initial [simp]: "written initial_state = []"
  and digests_initial [simp]: "digests initial_state = Map.empty"
  by (simp_all add: initial_state_def)

lemma process_take_completed:
  assumes "i \<le> length (written (process it xs))"
  shows "raised (process it (take i xs)) = None \<and> length (written (process it (take i xs))) = i"
proof -
  let ?fn = "output_filename it"
  let ?p = "process_loop ?fn initial_state (take i xs)"
  have le: "length (written (process it xs)) \<le> length xs"
    using process_loop_length_le [of ?fn initial_state xs] by (simp add: process_def)
  with assms have i: "i \<le> length xs" by simp
  have split: "process_loop ?fn initial_state xs =
      (if raised ?p = None then process_loop ?fn ?p (drop i xs) else ?p)"
    using process_loop_append [of initial_state ?fn "take i xs" "drop i xs"] by simp
  have none: "raised ?p = None"
  proof (rule ccontr)
    assume r: "raised ?p \<noteq> None"
    then have "length (written ?p) < i"
      using process_loop_length_raised [of initial_state ?fn "take i xs"] i by simp
    moreover from r split have "process it xs = ?p" by (auto simp: process_def)
    ultimately show False using assms by simp
  qed
  then have "length (written ?p) = i"
    using process_loop_length_completed [of initial_state ?fn "take i xs"] i by simp
  with none show ?thesis by (simp add: process_def)
qed

lemma process_step:
  assumes "i < length xs" and "raised (process it (take i xs)) = None"
  shows "process it (take (Suc i) xs) =
      (case process_record (output_filename it) (digests (process it (take i xs))) (xs ! i) of
         Inl e \<Rightarrow> (process it (take i xs))\<lparr>raised := Some e\<rparr>
       | Inr (d, out) \<Rightarrow>
           (process it (take i xs))\<lparr>digests := d,
             written := written (process it (take i xs)) @ [out]\<rparr>)"
proof -
  have "take (Suc i) xs = take i xs @ [xs ! i]"
    using assms(1) by (simp add: take_Suc_conv_app_nth)
  then show ?thesis
    using assms(2) process_loop_append [of initial_state "output_filename it" "take i xs" "[xs ! i]"]
    by (simp add: process_def split: sum.splits)
qed

lemma process_rest:
  assumes "i \<le> length xs"
  shows "process it xs =
      (if raised (process it (take i xs)) = None
       then process_loop (output_filename it) (process it (take i xs)) (drop i xs)
       else process it (take i xs))"
  using process_loop_append [of initial_state "output_filename it" "take i xs" "drop i xs"]
  by (simp add: process_def)

lemma process_written_take:
  assumes "i \<le> length (written (process it xs))"
  shows "written (process it (take i xs)) = take i (written (process it xs))"
proof -
  have le: "length (written (process it xs)) \<le> length xs"
    using process_loop_length_le [of "output_filename it" initial_state xs] by (simp add: process_def)
  from process_take_completed [OF assms]
  have c: "raised (process it (take i xs)) = None" "length (written (process it (take i xs))) = i"
    by simp_all
  from process_rest [of i xs it] le assms c
  have "process it xs = process_loop (output_filename it) (process it (take i xs)) (drop i xs)"
    by simp
  then have "take (length (written (process it (take i xs)))) (written (process it xs))
      = written (process it (take i xs))"
    using process_loop_written_prefix [of "process it (take i xs)" "output_filename it" "drop i xs"]
    by simp
  with c show ?thesis by simp
qed

lemma process_nth:
  assumes "i < length (written (process it xs))"
  shows "i < length xs
    \<and> process_record (output_filename it) (digests (process it (take i xs))) (xs ! i)
        = Inr (digests (process it (take (Suc i) xs)), written (process it xs) ! i)
    \<and> written (process it (take (Suc i) xs)) = take (Suc i) (written (process it xs))"
proof -
  have le: "length (written (process it xs)) \<le> length xs"
    using process_loop_length_le [of "output_filename it" initial_state xs] by (simp add: process_def)
  with assms have i: "i < length xs" by simp
  from assms have "i \<le> length (written (process it xs))" by simp
  from process_take_completed [OF this]
  have p: "raised (process it (take i xs)) = None" "length (written (process it (take i xs))) = i"
    by simp_all
  from assms have "Suc i \<le> length (written (process it xs))" by simp
  from process_take_completed [OF this] process_written_take [OF this]
  have q: "raised (process it (take (Suc i) xs)) = None"
    "written (process it (take (Suc i) xs)) = take (Suc i) (written (process it xs))"
    by simp_all
  show ?thesis
  proof (cases "process_record (output_filename it) (digests (process it (take i xs))) (xs ! i)")
    case (Inl e)
    with process_step [OF i p(1)] q(1) show ?thesis by simp
  next
    case (Inr r)
    obtain d out where r: "r = (d, out)" by (cases r)
    from process_step [OF i p(1)] Inr r
    have s: "process it (take (Suc i) xs) =
        (process it (take i xs))\<lparr>digests := d, written := written (process it (take i xs)) @ [out]\<rparr>"
      by simp
    then have "written (process it (take (Suc i) xs)) ! i = out"
      using p(2) nth_append_length [of "written (process it (take i xs))" out] by simp
    with q(2) assms have "written (process it xs) ! i = out" by simp
    with s Inr r i q(2) show ?thesis by simp
  qed
qed

lemma process_length_completed:
  assumes "raised (process it xs) = None"
  shows "length (written (process it xs)) = length xs"
  using assms process_loop_length_completed [of initial_state "output_filename it" xs]
  by (simp add: process_def)

lemma process_record_malformed:
  assumes "get_header ''WARC-Target-URI'' (rec_headers r) = Some url"
    and "startswith url ''<''" and "re_search_group1 url = None"
  shows "process_record fn d r = Inl AttributeError"
  using assms by (simp add: process_record_def unwrap_target_uri_def)

section \<open>Order and count of the records written\<close>



text \<open>
  C5 (as stated): for every input the number of records written equals the number of
  records read. An input whose second record has the target URI \<open><\<close> makes the pass raise
  at that record: it and the record after it are never written.
\<close>

theorem count_lost_on_exception:
  "length (written (process example_item [response_1, request_with_open_bracket, response_2]))
     \<noteq> length [response_1, request_with_open_bracket, response_2]"
  by (simp add: run_defs example_item_def response_1_def response_2_def
      request_with_open_bracket_def)

text \<open>
  C5 (amended): for every input on which the pass completes without raising, the number
  of records written equals the number of records read.
\<close>

theorem count_preserved_when_completed:
  assumes "raised (process it xs) = None"
  shows "length (written (process it xs)) = length xs"
  using assms by (rule process_length_completed)

theorem count_preserved_when_completed_witness:
  "raised (process example_item [response_1, response_2, response_3]) = None
   \<and> length (written (process example_item [response_1, response_2, response_3])) = 3"
  using count_preserved_when_completed [of example_item "[response_1, response_2, response_3]"]
  by (simp add: scenario_run)

section \<open>A bracket that does not match\<close>

text \<open>
  C10: a record whose \<open>WARC-Target-URI\<close> starts with \<open><\<close> without matching
  \<open>^<(.+)>$\<close> makes \<open>process\<close> raise (\<open>AttributeError\<close>, from \<open>.group\<close> on \<open>None\<close>);
  neither that record nor a later one is written, so at most the \<open>i\<close> records before it
  are.
\<close>

theorem malformed_bracket_raises:
  assumes "i < length xs"
    and "get_header ''WARC-Target-URI'' (rec_headers (xs ! i)) = Some url"
    and "startswith url ''<''"
    and "re_search_group1 url = None"
  shows "raised (process it xs) = Some AttributeError \<and> length (written (process it xs)) \<le> i"
proof -
  have len: "length (written (process it xs)) \<le> i"
  proof (rule ccontr)
    assume "\<not> length (written (process it xs)) \<le> i"
    then have "i < length (written (process it xs))" by simp
    from process_nth [OF this] process_record_malformed [OF assms(2-4)]
    show False by simp
  qed
  have "raised (process it xs) \<noteq> None"
  proof
    assume "raised (process it xs) = None"
    then have "length (written (process it xs)) = length xs"
      by (rule process_length_completed)
    with len assms(1) show False by simp
  qed
  then obtain e where "raised (process it xs) = Some e" by blast
  then have "raised (process it xs) = Some AttributeError" by (cases e) simp
  with len show ?thesis by simp
qed

theorem malformed_bracket_raises_witness:
  "re_search_group1 ''<'' = None \<and> re_search_group1 ''<uri'' = None
   \<and> raised (process example_item [response_1, request_with_open_bracket, response_2])
       = Some AttributeError
   \<and> length (written (process example_item [response_1, request_with_open_bracket, response_2])) \<le> 1"
  using malformed_bracket_raises
    [of 1 "[response_1, request_with_open_bracket, response_2]" "''<''" example_item]
  by (simp add: request_with_open_bracket_def startswith_def re_search_group1_def
      lower_names)

lemma unwrap_target_uri_other_headers:
  assumes "unwrap_target_uri r = Inr r'" and "lower ''WARC-Target-URI'' \<in> set (map lower ns)"
  shows "other_headers ns (rec_headers r') = other_headers ns (rec_headers r)"
  using assms
  by (auto simp: unwrap_target_uri_def other_headers_replace_header
      split: option.splits if_splits)

lemma process_record_non_response:
  assumes "get_header ''WARC-Type'' (rec_headers r) \<noteq> Some ''response''"
  shows "process_record fn d r =
     (case process_record fn Map.empty r of Inl e \<Rightarrow> Inl e | Inr (d0, out) \<Rightarrow> Inr (d, out))"
proof (cases "unwrap_target_uri r")
  case (Inl e)
  then show ?thesis by (simp add: process_record_def)
next
  case (Inr r')
  from unwrap_target_uri_get_other [OF Inr, of "''WARC-Type''"] assms
  have "get_header ''WARC-Type'' (rec_headers r') \<noteq> Some ''response''"
    by (simp add: lower_names)
  with Inr show ?thesis by (simp add: process_record_def)
qed

section \<open>Records that are not responses\<close>

text \<open>
  C6: a record whose \<open>WARC-Type\<close> is not \<open>response\<close> (\<open>warcinfo\<close>, \<open>request\<close>,
  \<open>metadata\<close>, \<open>revisit\<close>, any other, or none) neither changes the digest index nor reads
  it: what the loop body does with the record is what it does with it on the empty index,
  with the index handed back as it was, and the index after the record is the index before
  it.
\<close>

theorem non_response_leaves_index:
  assumes "i < length xs"
    and "get_header ''WARC-Type'' (rec_headers (xs ! i)) \<noteq> Some ''response''"
  shows "(\<forall>d. process_record (output_filename it) d (xs ! i) =
            (case process_record (output_filename it) Map.empty (xs ! i) of
               Inl e \<Rightarrow> Inl e
             | Inr (d0, out) \<Rightarrow> Inr (d, out)))
    \<and> digests (process it (take (Suc i) xs)) = digests (process it (take i xs))"
proof
  show "\<forall>d. process_record (output_filename it) d (xs ! i) =
            (case process_record (output_filename it) Map.empty (xs ! i) of
               Inl e \<Rightarrow> Inl e
             | Inr (d0, out) \<Rightarrow> Inr (d, out))"
    using process_record_non_response [OF assms(2)] by blast
next
  let ?p = "process it (take i xs)"
  show "digests (process it (take (Suc i) xs)) = digests ?p"
  proof (cases "raised ?p = None")
    case True
    from process_step [OF assms(1) True, of ] process_record_non_response [OF assms(2), of "output_filename it" "digests ?p"]
    show ?thesis by (auto split: sum.splits)
  next
    case False
    have "take (Suc i) xs = take i xs @ [xs ! i]"
      using assms(1) by (simp add: take_Suc_conv_app_nth)
    then have "process it (take (Suc i) xs) = ?p"
      using False process_loop_append [of initial_state "output_filename it" "take i xs" "[xs ! i]"]
      by (auto simp: process_def)
    then show ?thesis by simp
  qed
qed

theorem non_response_leaves_index_witness:
  "get_header ''WARC-Type'' (rec_headers warcinfo_1) \<noteq> Some ''response''
   \<and> digests (process example_item [response_1, warcinfo_1])
       = digests (process example_item [response_1])"
  using non_response_leaves_index [of 1 "[response_1, warcinfo_1, response_3]" example_item]
  by (simp add: warcinfo_1_def lower_names)

section \<open>Responses without a payload digest\<close>

text \<open>
  C1: a response without \<open>WARC-Payload-Digest\<close> is to be written through unmodified, never
  indexed and never converted. The code has no case for it: \<open>get_header\<close> returns \<open>None\<close>,
  which is used as the key like any digest. Of two such responses with different payloads
  the first is indexed under \<open>None\<close>, and the second is converted to a revisit of the first
  and loses its payload.
\<close>

theorem digestless_response_converted:
  "payload_digest digestless_1 = None \<and> payload_digest digestless_2 = None
   \<and> payload digestless_1 \<noteq> payload digestless_2
   \<and> raised (process example_item [digestless_1, digestless_2]) = None
   \<and> digests (process example_item [digestless_1, digestless_2]) None = Some (entry_of digestless_1)
   \<and> written (process example_item [digestless_1, digestless_2]) ! 0 = digestless_1
   \<and> written (process example_item [digestless_1, digestless_2]) ! 1
       = record_response_to_revisit digestless_2 (entry_of digestless_1)
   \<and> written (process example_item [digestless_1, digestless_2]) ! 1 \<noteq> digestless_2
   \<and> rec_type (written (process example_item [digestless_1, digestless_2]) ! 1) = Some ''revisit''
   \<and> get_header ''WARC-Refers-To''
         (rec_headers (written (process example_item [digestless_1, digestless_2]) ! 1))
       = Some ''<urn:uuid:7>''
   \<and> payload (written (process example_item [digestless_1, digestless_2]) ! 1) = []"
  by (simp add: run_defs example_item_def digestless_1_def digestless_2_def payload_digest_def
      entry_of_def)

lemma revisit_headers_get_other:
  assumes "lower n \<notin> set (map lower [''WARC-Refers-To'', ''WARC-Refers-To-Date'',
      ''WARC-Refers-To-Target-URI'', ''WARC-Type'', ''WARC-Truncated'', ''WARC-Profile'',
      ''WARC-Block-Digest'', ''Content-Length''])"
  shows "get_header n (revisit_headers hs e) = get_header n hs"
  using assms
  by (cases e)
    (simp add: revisit_headers_def get_header_replace_header_other
      get_header_remove_header_other)

lemma revisit_headers_not_empty: "revisit_headers hs e \<noteq> []"
proof -
  have "header_count ''WARC-Profile'' (revisit_headers hs e) \<noteq> 0"
    by (cases e)
      (simp add: revisit_headers_def header_count_replace_header header_count_remove_header
        lower_names)
  then show ?thesis by auto
qed

lemma process_record_duplicate:
  assumes "unwrap_target_uri r0 = Inr r" and "is_response r" and "d (payload_digest r) = Some e"
  shows "process_record fn d r0 = Inr (d, record_response_to_revisit r e)"
  using assms by (simp add: process_record_def is_response_def payload_digest_def)

lemma process_record_first:
  assumes "unwrap_target_uri r0 = Inr r" and "is_response r" and "d (payload_digest r) = None"
  shows "process_record fn d r0 = Inr (d(payload_digest r \<mapsto> entry_of r), r)"
  using assms
  by (simp add: process_record_def is_response_def payload_digest_def entry_of_def)

section \<open>The record identifier and date of a revisit record\<close>

text \<open>
  C9 (as stated): a revisit record built by the pass carries a freshly generated
  \<open>WARC-Record-ID\<close>, distinct from that of the response it replaces. Nothing in the task
  generates an identifier: the headers of the response, with its \<open>WARC-Record-ID\<close>, are
  handed to \<open>create_warc_record\<close>. In the scenario of three responses with the digests A,
  B, A the third record is written as a revisit with the identifier of the third response.
\<close>

theorem revisit_record_id_not_fresh:
  "rec_type (written (process example_item [response_1, response_2, response_3]) ! 2)
     = Some ''revisit''
   \<and> get_header ''WARC-Record-ID''
         (rec_headers (written (process example_item [response_1, response_2, response_3]) ! 2))
       = get_header ''WARC-Record-ID'' (rec_headers response_3)"
  by (simp add: run_defs example_item_def response_1_def response_2_def response_3_def)

text \<open>
  C9 (amended): every revisit record built by the pass keeps the \<open>WARC-Record-ID\<close> of the
  response it is built from, and its \<open>WARC-Date\<close> is that response's own date, not the
  date in the index entry.
\<close>

theorem revisit_keeps_record_id_and_date:
  assumes "unwrap_target_uri r0 = Inr r" and "is_response r" and "d (payload_digest r) = Some e"
  shows "process_record fn d r0 = Inr (d, record_response_to_revisit r e)
    \<and> get_header ''WARC-Record-ID'' (rec_headers (record_response_to_revisit r e))
        = get_header ''WARC-Record-ID'' (rec_headers r0)
    \<and> get_header ''WARC-Date'' (rec_headers (record_response_to_revisit r e))
        = get_header ''WARC-Date'' (rec_headers r0)"
proof -
  have "get_header ''WARC-Record-ID'' (rec_headers (record_response_to_revisit r e))
      = get_header ''WARC-Record-ID'' (rec_headers r)"
    and "get_header ''WARC-Date'' (rec_headers (record_response_to_revisit r e))
      = get_header ''WARC-Date'' (rec_headers r)"
    by (simp_all add: record_response_to_revisit_def create_warc_record_def
        revisit_headers_get_other lower_names)
  moreover have "get_header ''WARC-Record-ID'' (rec_headers r)
      = get_header ''WARC-Record-ID'' (rec_headers r0)"
    and "get_header ''WARC-Date'' (rec_headers r) = get_header ''WARC-Date'' (rec_headers r0)"
    using unwrap_target_uri_get_other [OF assms(1)] by (simp_all add: lower_names)
  ultimately show ?thesis
    using process_record_duplicate [of r0 r d e fn] assms by simp
qed

theorem revisit_keeps_record_id_and_date_witness:
  "get_header ''WARC-Record-ID''
     (rec_headers (record_response_to_revisit
        (response_3\<lparr>rec_headers :=
           replace_header ''WARC-Target-URI'' (Some ''http://c/'') (rec_headers response_3)\<rparr>)
        (Some ''<urn:uuid:1>'', Some ''2019-06-22T01:00:00Z'', Some ''http://a/'')))
     = Some ''<urn:uuid:3>''
   \<and> get_header ''WARC-Date''
     (rec_headers (record_response_to_revisit
        (response_3\<lparr>rec_headers :=
           replace_header ''WARC-Target-URI'' (Some ''http://c/'') (rec_headers response_3)\<rparr>)
        (Some ''<urn:uuid:1>'', Some ''2019-06-22T01:00:00Z'', Some ''http://a/'')))
     = Some ''2019-06-22T03:00:00Z''"
  using revisit_keeps_record_id_and_date
    [of response_3
        "response_3\<lparr>rec_headers :=
           replace_header ''WARC-Target-URI'' (Some ''http://c/'') (rec_headers response_3)\<rparr>"
        "[Some ''sha1:A'' \<mapsto> (Some ''<urn:uuid:1>'', Some ''2019-06-22T01:00:00Z'', Some ''http://a/'')]"
        "(Some ''<urn:uuid:1>'', Some ''2019-06-22T01:00:00Z'', Some ''http://a/'')"]
  by (simp add: unwrap_target_uri_def is_response_def payload_digest_def response_3_def
      replace_header_def startswith_def re_search_group1_def LF_def lower_names)

lemma unwrap_target_uri_value:
  assumes "unwrap_target_uri r0 = Inr r"
    and "header_count ''WARC-Target-URI'' (rec_headers r0) \<le> 1"
  shows "unwrap_uri (get_header ''WARC-Target-URI'' (rec_headers r0))
      = Inr (get_header ''WARC-Target-URI'' (rec_headers r))"
  using assms
  by (auto simp: unwrap_target_uri_def unwrap_uri_def get_header_replace_header_same
      split: option.splits if_splits)

lemma unwrap_target_uri_unbracketed:
  assumes "\<forall>u. get_header ''WARC-Target-URI'' (rec_headers r0) = Some u \<longrightarrow> \<not> startswith u ''<''"
  shows "unwrap_target_uri r0 = Inr r0"
  using assms by (auto simp: unwrap_target_uri_def split: option.splits)

lemma process_record_warcinfo:
  assumes "unwrap_target_uri r0 = Inr r"
    and "get_header ''WARC-Type'' (rec_headers r0) = Some ''warcinfo''"
  shows "process_record fn d r0 =
      Inr (d, r\<lparr>rec_headers := replace_header ''WARC-Filename'' (Some fn) (rec_headers r)\<rparr>)"
proof -
  from unwrap_target_uri_get_other [OF assms(1), of "''WARC-Type''"] assms(2)
  have "get_header ''WARC-Type'' (rec_headers r) = Some ''warcinfo''"
    by (simp add: lower_names)
  with assms(1) show ?thesis by (simp add: process_record_def)
qed

lemma process_record_InrD:
  assumes "process_record fn d r0 = Inr p"
  shows "\<exists>r. unwrap_target_uri r0 = Inr r"
  using assms by (cases "unwrap_target_uri r0") (simp_all add: process_record_def)

section \<open>The warcinfo record\<close>

text \<open>
  C8 (as stated): a \<open>warcinfo\<close> record is written with \<open>WARC-Filename\<close> rewritten and every
  other header unchanged. The URI unwrap of lines 207 to 211 comes before the test of the
  record type and applies to every record: a \<open>warcinfo\<close> record that carries a bracketed
  \<open>WARC-Target-URI\<close> is written with that header changed too.
\<close>

theorem warcinfo_target_uri_unwrapped:
  "get_header ''WARC-Type'' (rec_headers warcinfo_with_target_uri) = Some ''warcinfo''
   \<and> raised (process example_item [warcinfo_with_target_uri]) = None
   \<and> get_header ''WARC-Target-URI'' (rec_headers warcinfo_with_target_uri) = Some ''<urn:x>''
   \<and> get_header ''WARC-Target-URI''
         (rec_headers (written (process example_item [warcinfo_with_target_uri]) ! 0))
       = Some ''urn:x''
   \<and> other_headers [''WARC-Filename'']
         (rec_headers (written (process example_item [warcinfo_with_target_uri]) ! 0))
       \<noteq> other_headers [''WARC-Filename''] (rec_headers warcinfo_with_target_uri)"
  by (simp add: run_defs example_item_def warcinfo_with_target_uri_def other_headers_def)

text \<open>
  C8 (amended): for every \<open>warcinfo\<close> record that the pass processes without raising, the
  record written is the record after the URI unwrap with \<open>replace_header\<close> applied for
  \<open>WARC-Filename\<close> and the path of the output file. The index is left as it is. Every
  header other than \<open>WARC-Filename\<close> and \<open>WARC-Target-URI\<close> is unchanged, and so are the
  payload, the HTTP headers and the record type. A record with at most one \<open>WARC-Filename\<close>
  header reads the output path there afterwards; one with at most one \<open>WARC-Target-URI\<close>
  header reads its unwrapped value there; and when the record has no target URI, or one
  that does not start with \<open><\<close>, the only change is that of \<open>WARC-Filename\<close>.
\<close>

theorem warcinfo_filename_rewritten:
  assumes "get_header ''WARC-Type'' (rec_headers r0) = Some ''warcinfo''"
    and "process_record (output_filename it) d r0 = Inr (d', out)"
  shows "d' = d
    \<and> (\<exists>r. unwrap_target_uri r0 = Inr r
          \<and> out = r\<lparr>rec_headers :=
                replace_header ''WARC-Filename'' (Some (output_filename it)) (rec_headers r)\<rparr>)
    \<and> other_headers [''WARC-Filename'', ''WARC-Target-URI''] (rec_headers out)
        = other_headers [''WARC-Filename'', ''WARC-Target-URI''] (rec_headers r0)
    \<and> payload out = payload r0 \<and> http_headers out = http_headers r0
    \<and> rec_type out = rec_type r0
    \<and> (header_count ''WARC-Filename'' (rec_headers r0) \<le> 1
         \<longrightarrow> get_header ''WARC-Filename'' (rec_headers out) = Some (output_filename it))
    \<and> (header_count ''WARC-Target-URI'' (rec_headers r0) \<le> 1
         \<longrightarrow> unwrap_uri (get_header ''WARC-Target-URI'' (rec_headers r0))
              = Inr (get_header ''WARC-Target-URI'' (rec_headers out)))
    \<and> ((\<forall>u. get_header ''WARC-Target-URI'' (rec_headers r0) = Some u \<longrightarrow> \<not> startswith u ''<'')
         \<longrightarrow> out = r0\<lparr>rec_headers :=
                replace_header ''WARC-Filename'' (Some (output_filename it)) (rec_headers r0)\<rparr>)"
proof -
  let ?fn = "output_filename it"
  from process_record_InrD [OF assms(2)] obtain r where r: "unwrap_target_uri r0 = Inr r"
    by blast
  from process_record_warcinfo [OF r assms(1), of ?fn d] assms(2)
  have d: "d' = d"
    and out: "out = r\<lparr>rec_headers := replace_header ''WARC-Filename'' (Some ?fn) (rec_headers r)\<rparr>"
    by simp_all
  have oth: "other_headers [''WARC-Filename'', ''WARC-Target-URI''] (rec_headers out)
      = other_headers [''WARC-Filename'', ''WARC-Target-URI''] (rec_headers r0)"
    using unwrap_target_uri_other_headers [OF r, of "[''WARC-Filename'', ''WARC-Target-URI'']"]
    by (simp add: out other_headers_replace_header)
  have fields: "payload out = payload r0 \<and> http_headers out = http_headers r0
      \<and> rec_type out = rec_type r0"
    using unwrap_target_uri_fields [OF r] by (simp add: out)
  have fname: "get_header ''WARC-Filename'' (rec_headers out) = Some ?fn"
    if "header_count ''WARC-Filename'' (rec_headers r0) \<le> 1"
    using that unwrap_target_uri_count [OF r, of "''WARC-Filename''"]
    by (simp add: out get_header_replace_header_same)
  have uri: "unwrap_uri (get_header ''WARC-Target-URI'' (rec_headers r0))
      = Inr (get_header ''WARC-Target-URI'' (rec_headers out))"
    if "header_count ''WARC-Target-URI'' (rec_headers r0) \<le> 1"
    using unwrap_target_uri_value [OF r that]
    by (simp add: out get_header_replace_header_other lower_names)
  have plain: "out = r0\<lparr>rec_headers := replace_header ''WARC-Filename'' (Some ?fn) (rec_headers r0)\<rparr>"
    if "\<forall>u. get_header ''WARC-Target-URI'' (rec_headers r0) = Some u \<longrightarrow> \<not> startswith u ''<''"
    using unwrap_target_uri_unbracketed [OF that] r out by simp
  from d r out oth fields fname uri plain show ?thesis by blast
qed

theorem warcinfo_filename_rewritten_witness:
  "get_header ''WARC-Type'' (rec_headers warcinfo_1) = Some ''warcinfo''
   \<and> process_record (output_filename example_item) Map.empty warcinfo_1
       = Inr (Map.empty,
              warcinfo_1\<lparr>rec_headers :=
                [(''WARC-Type'', Some ''warcinfo''),
                 (''WARC-Record-ID'', Some ''<urn:uuid:0>''),
                 (''WARC-Filename'', Some ''d/w-deduplicated.warc.gz''),
                 (''Content-Length'', Some ''14'')]\<rparr>)
   \<and> get_header ''WARC-Filename''
        (rec_headers (warcinfo_1\<lparr>rec_headers :=
                [(''WARC-Type'', Some ''warcinfo''),
                 (''WARC-Record-ID'', Some ''<urn:uuid:0>''),
                 (''WARC-Filename'', Some ''d/w-deduplicated.warc.gz''),
                 (''Content-Length'', Some ''14'')]\<rparr>))
       = Some (output_filename example_item)"
  using warcinfo_filename_rewritten
    [of warcinfo_1 example_item Map.empty Map.empty
        "warcinfo_1\<lparr>rec_headers :=
                [(''WARC-Type'', Some ''warcinfo''),
                 (''WARC-Record-ID'', Some ''<urn:uuid:0>''),
                 (''WARC-Filename'', Some ''d/w-deduplicated.warc.gz''),
                 (''Content-Length'', Some ''14'')]\<rparr>"]
  by (simp add: run_defs example_item_def warcinfo_1_def header_count_def)

section \<open>The digest index\<close>

lemma process_snoc:
  "process it (xs @ [x]) =
     (if raised (process it xs) = None
      then (case process_record (output_filename it) (digests (process it xs)) x of
              Inl e \<Rightarrow> (process it xs)\<lparr>raised := Some e\<rparr>
            | Inr (d, out) \<Rightarrow>
                (process it xs)\<lparr>digests := d, written := written (process it xs) @ [out]\<rparr>)
      else process it xs)"
  using process_loop_append [of initial_state "output_filename it" xs "[x]"]
  by (auto simp: process_def split: sum.splits)

lemma unwrap_target_uri_occurrence:
  assumes "unwrap_target_uri r0 = Inr r"
  shows "is_response r = is_response r0" and "payload_digest r = payload_digest r0"
    and "occurrence k r = occurrence k r0"
  using unwrap_target_uri_get_other [OF assms, of "''WARC-Type''"]
    unwrap_target_uri_get_other [OF assms, of "''WARC-Payload-Digest''"]
  by (simp_all add: is_response_def payload_digest_def occurrence_def lower_names)

lemma revisit_payload_digest:
  "payload_digest (record_response_to_revisit r e) = payload_digest r"
  by (simp add: payload_digest_def record_response_to_revisit_def create_warc_record_def
      revisit_headers_get_other lower_names)

lemma revisit_fields:
  "rec_type (record_response_to_revisit r e) = Some ''revisit''"
  "payload (record_response_to_revisit r e) = []"
  "http_headers (record_response_to_revisit r e) = http_headers r"
  "rec_headers (record_response_to_revisit r e) = revisit_headers (rec_headers r) e"
  by (simp_all add: record_response_to_revisit_def create_warc_record_def)

text \<open>The three ways in which the loop body returns.\<close>

lemma process_record_cases:
  assumes "process_record fn d r0 = Inr (d', out)"
  obtains
    (first) r where "unwrap_target_uri r0 = Inr r" "is_response r" "d (payload_digest r) = None"
      "d' = d(payload_digest r \<mapsto> entry_of r)" "out = r"
  | (duplicate) r e where "unwrap_target_uri r0 = Inr r" "is_response r"
      "d (payload_digest r) = Some e" "d' = d" "out = record_response_to_revisit r e"
  | (other) r where "unwrap_target_uri r0 = Inr r" "\<not> is_response r" "d' = d"
      "\<not> is_response out"
proof -
  from process_record_InrD [OF assms] obtain r where r: "unwrap_target_uri r0 = Inr r"
    by blast
  show ?thesis
  proof (cases "is_response r")
    case True
    show ?thesis
    proof (cases "d (payload_digest r)")
      case None
      from process_record_first [of r0 r d fn] r True None assms first [OF r True None]
      show ?thesis by simp
    next
      case (Some e)
      from process_record_duplicate [of r0 r d e fn] r True Some assms duplicate [OF r True Some]
      show ?thesis by simp
    qed
  next
    case False
    have "d' = d \<and> \<not> is_response out"
    proof (cases "get_header ''WARC-Type'' (rec_headers r) = Some ''warcinfo''")
      case True
      with r False assms show ?thesis
        by (auto simp: process_record_def is_response_def get_header_replace_header_other
            lower_names)
    next
      case wi: False
      with r False assms show ?thesis
        by (auto simp: process_record_def is_response_def)
    qed
    with other [OF r False] show ?thesis by simp
  qed
qed

lemma find_snoc:
  "find P (xs @ [x]) = (case find P xs of None \<Rightarrow> (if P x then Some x else None) | Some y \<Rightarrow> Some y)"
  by (induction xs) auto

lemma index_invariant:
  "raised (process it xs) = None \<Longrightarrow>
   digests (process it xs) k = map_option entry_of (find (occurrence k) (written (process it xs)))"
proof (induction xs arbitrary: k rule: rev_induct)
  case Nil
  then show ?case by (simp add: process_def)
next
  case (snoc x xs)
  let ?p = "process it xs"
  from snoc.prems have p: "raised ?p = None"
    by (auto simp: process_snoc split: if_splits)
  note IH = snoc.IH [OF p]
  from snoc.prems p obtain d out where
    pr: "process_record (output_filename it) (digests ?p) x = Inr (d, out)"
    by (cases "process_record (output_filename it) (digests ?p) x")
       (auto simp: process_snoc)
  with p have s: "process it (xs @ [x]) = ?p\<lparr>digests := d, written := written ?p @ [out]\<rparr>"
    by (simp add: process_snoc)
  from pr show ?case
  proof (cases rule: process_record_cases)
    case (first r)
    show ?thesis
    proof (cases "k = payload_digest r")
      case True
      with first IH [of k] have "find (occurrence k) (written ?p) = None" by simp
      moreover from True first have "occurrence k out" by (simp add: occurrence_def)
      ultimately show ?thesis using True first by (simp add: s find_snoc)
    next
      case False
      with first have "\<not> occurrence k out" by (simp add: occurrence_def)
      with False first IH [of k] show ?thesis
        by (simp add: s find_snoc split: option.splits)
    qed
  next
    case (duplicate r e)
    show ?thesis
    proof (cases "find (occurrence k) (written ?p)")
      case None
      with IH [of k] duplicate have "k \<noteq> payload_digest r" by auto
      with duplicate have "\<not> occurrence k out"
        by (simp add: occurrence_def revisit_payload_digest)
      with None duplicate IH [of k] show ?thesis by (simp add: s find_snoc)
    next
      case (Some w)
      with duplicate IH [of k] show ?thesis by (simp add: s find_snoc)
    qed
  next
    case (other r)
    then have "\<not> occurrence k out" by (simp add: occurrence_def)
    with other IH [of k] show ?thesis by (simp add: s find_snoc split: option.splits)
  qed
qed

lemma process_record_occurrence:
  assumes "process_record fn d r0 = Inr (d', out)" and "occurrence k out"
  shows "occurrence k r0"
  using assms(1)
proof (cases rule: process_record_cases)
  case (first r)
  with assms(2) unwrap_target_uri_occurrence(3) [of r0 r k] show ?thesis by simp
next
  case (duplicate r e)
  with assms(2) have "occurrence k r" by (simp add: occurrence_def revisit_payload_digest)
  with duplicate unwrap_target_uri_occurrence(3) [of r0 r k] show ?thesis by simp
next
  case (other r)
  with assms(2) show ?thesis by (simp add: occurrence_def)
qed

lemma written_occurrence:
  assumes "i < length (written (process it xs))" and "occurrence k (written (process it xs) ! i)"
  shows "occurrence k (xs ! i)"
  using process_nth [OF assms(1)] process_record_occurrence [OF _ assms(2)] by blast

lemma index_before:
  assumes "i \<le> length (written (process it xs))"
  shows "digests (process it (take i xs)) k
      = map_option entry_of (find (occurrence k) (take i (written (process it xs))))"
  using index_invariant [of it "take i xs" k] process_take_completed [OF assms]
    process_written_take [OF assms]
  by simp

text \<open>The first response with a digest is written through and enters the index.\<close>

lemma first_occurrence_written:
  assumes "i < length (written (process it xs))" and "occurrence k (xs ! i)"
    and "\<forall>j<i. \<not> occurrence k (xs ! j)"
  shows "unwrap_target_uri (xs ! i) = Inr (written (process it xs) ! i)"
    and "occurrence k (written (process it xs) ! i)"
proof -
  let ?w = "written (process it xs)"
  have "find (occurrence k) (take i ?w) = None"
  proof (rule ccontr)
    assume "find (occurrence k) (take i ?w) \<noteq> None"
    then obtain j where "j < i" "j < length ?w" "occurrence k (?w ! j)"
      by (auto simp: find_None_iff in_set_conv_nth)
    with written_occurrence [of j it xs k] assms(3) show False by blast
  qed
  with index_before [of i it xs k] assms(1)
  have none: "digests (process it (take i xs)) k = None" by simp
  from process_nth [OF assms(1)] obtain d' where
    pr: "process_record (output_filename it) (digests (process it (take i xs))) (xs ! i)
        = Inr (d', ?w ! i)"
    by blast
  from pr have "unwrap_target_uri (xs ! i) = Inr (?w ! i) \<and> occurrence k (?w ! i)"
  proof (cases rule: process_record_cases)
    case (first r)
    with assms(2) unwrap_target_uri_occurrence(3) [of "xs ! i" r k] show ?thesis by simp
  next
    case (duplicate r e)
    with assms(2) unwrap_target_uri_occurrence(3) [of "xs ! i" r k] none show ?thesis
      by (simp add: occurrence_def)
  next
    case (other r)
    with assms(2) unwrap_target_uri_occurrence(3) [of "xs ! i" r k] show ?thesis
      by (simp add: occurrence_def)
  qed
  then show "unwrap_target_uri (xs ! i) = Inr (?w ! i)" and "occurrence k (?w ! i)"
    by simp_all
qed

text \<open>
  A later response with the same digest is converted, with the entry of the first one as
  it was written.
\<close>

lemma later_occurrence_written:
  assumes "i < length (written (process it xs))" and "occurrence k (xs ! i)"
    and "j < i" and "occurrence k (xs ! j)" and "\<forall>j'<j. \<not> occurrence k (xs ! j')"
  shows "\<exists>r. unwrap_target_uri (xs ! i) = Inr r
      \<and> written (process it xs) ! i
          = record_response_to_revisit r (entry_of (written (process it xs) ! j))"
proof -
  let ?w = "written (process it xs)"
  from assms(1,3) have j: "j < length ?w" by simp
  note fj = first_occurrence_written [OF j assms(4,5)]
  have "find (occurrence k) (take i ?w) = Some (?w ! j)"
    unfolding find_Some_iff
  proof (intro exI [of _ j] conjI allI impI)
    show "j < length (take i ?w)" using assms(1,3) by simp
    show "occurrence k (take i ?w ! j)" using fj(2) assms(3) by simp
    show "?w ! j = take i ?w ! j" using assms(3) by simp
    fix j' assume j': "j' < j"
    show "\<not> occurrence k (take i ?w ! j')"
    proof
      assume "occurrence k (take i ?w ! j')"
      with j' assms(3) have "occurrence k (?w ! j')" by simp
      moreover from j' j have "j' < length ?w" by simp
      ultimately have "occurrence k (xs ! j')" using written_occurrence by blast
      with assms(5) j' show False by blast
    qed
  qed
  with index_before [of i it xs k] assms(1)
  have some: "digests (process it (take i xs)) k = Some (entry_of (?w ! j))" by simp
  from process_nth [OF assms(1)] obtain d' where
    pr: "process_record (output_filename it) (digests (process it (take i xs))) (xs ! i)
        = Inr (d', ?w ! i)"
    by blast
  from pr show ?thesis
  proof (cases rule: process_record_cases)
    case (first r)
    with assms(2) unwrap_target_uri_occurrence(3) [of "xs ! i" r k] some show ?thesis
      by (simp add: occurrence_def)
  next
    case (duplicate r e)
    with assms(2) unwrap_target_uri_occurrence(3) [of "xs ! i" r k] some show ?thesis
      by (simp add: occurrence_def)
  next
    case (other r)
    with assms(2) unwrap_target_uri_occurrence(3) [of "xs ! i" r k] show ?thesis
      by (simp add: occurrence_def)
  qed
qed

section \<open>The first occurrence of a digest\<close>

lemma filter_upt_Cons:
  assumes "filter P [0..<n] = i0 # rest"
  shows "i0 < n" and "P i0" and "\<forall>j<i0. \<not> P j"
    and "\<forall>i\<in>set rest. i0 < i \<and> i < n \<and> P i"
proof -
  from assms obtain us vs where
    split: "[0..<n] = us @ i0 # vs" and us: "\<forall>u\<in>set us. \<not> P u" and i0: "P i0"
    and rest: "rest = filter P vs"
    by (auto simp: filter_eq_Cons_iff)
  have "i0 \<in> set [0..<n]" by (simp add: split)
  then show n: "i0 < n" by simp
  show "P i0" by (rule i0)
  have "sorted (us @ i0 # vs)" and "distinct (us @ i0 # vs)"
    using sorted_upt [of 0 n] distinct_upt [of 0 n] by (simp_all add: split)
  then have vs: "\<forall>v\<in>set vs. i0 < v"
    by (auto simp: sorted_append le_less)
  show "\<forall>j<i0. \<not> P j"
  proof (intro allI impI)
    fix j assume j: "j < i0"
    with n have "j \<in> set [0..<n]" by simp
    with j vs have "j \<in> set us" by (auto simp: split)
    with us show "\<not> P j" by blast
  qed
  show "\<forall>i\<in>set rest. i0 < i \<and> i < n \<and> P i"
  proof
    fix i assume "i \<in> set rest"
    with rest have i: "i \<in> set vs" "P i" by simp_all
    then have "i \<in> set [0..<n]" by (simp add: split)
    with i vs show "i0 < i \<and> i < n \<and> P i" by simp
  qed
qed

lemma length_filter_nth:
  "length (filter (\<lambda>i. P (xs ! i)) [0..<length xs]) = length (filter P xs)"
proof -
  have "filter P (map ((!) xs) [0..<length xs]) = map ((!) xs) (filter (\<lambda>i. P (xs ! i)) [0..<length xs])"
    by (simp add: filter_map comp_def)
  then show ?thesis by (metis length_map map_nth)
qed

lemma revisit_headers_type:
  assumes "header_count ''WARC-Type'' hs \<le> 1"
  shows "get_header ''WARC-Type'' (revisit_headers hs e) = Some ''revisit''"
  using assms
  by (cases e)
    (simp add: revisit_headers_def get_header_replace_header_other
      get_header_remove_header_other get_header_replace_header_same
      header_count_replace_header lower_names)

text \<open>
  C2 (as stated): for every input, of the N responses that carry a digest exactly one is
  emitted as a response and N - 1 as revisits. When the pass raises before it reaches
  them they are not emitted at all: with a request whose target URI is \<open><\<close> in front, the
  one response of the input (N = 1) is never written. And on a pass that completes, a
  later response in which \<open>WARC-Type\<close> occurs twice is converted with only the last of the
  two overwritten: the record written reads \<open>response\<close> under \<open>WARC-Type\<close> still, so that
  two records of the output are responses with the digest.
\<close>

theorem response_count_counterexample:
  "length (filter (occurrence (Some ''sha1:A'')) [request_with_open_bracket, response_1]) = 1
   \<and> written (process example_item [request_with_open_bracket, response_1]) = []
   \<and> raised (process example_item [response_1, response_3_two_types]) = None
   \<and> length (filter (occurrence (Some ''sha1:A'')) [response_1, response_3_two_types]) = 2
   \<and> rec_type (written (process example_item [response_1, response_3_two_types]) ! 1)
       = Some ''revisit''
   \<and> is_response (written (process example_item [response_1, response_3_two_types]) ! 1)
   \<and> length (filter is_response
         (written (process example_item [response_1, response_3_two_types]))) = 2"
  by (simp add: run_defs example_item_def request_with_open_bracket_def response_1_def
      response_3_two_types_def occurrence_def is_response_def payload_digest_def)

text \<open>
  C2 (amended): for every input on which the pass completes without raising and every
  payload digest carried by N response records of it, N at least 1, of which those after
  the first carry \<open>WARC-Type\<close> once: the first of them in file order is written through
  (after the URI unwrap) and is the only one of them written as a response; each of the
  other N - 1 is written as a revisit record, with \<open>WARC-Type\<close> \<open>revisit\<close>, the conversion
  of that response with the index entry of the first.
\<close>

theorem first_occurrence_retained:
  assumes "raised (process it xs) = None"
    and "filter (\<lambda>i. occurrence (Some dg) (xs ! i)) [0..<length xs] = i0 # rest"
    and "\<forall>i\<in>set rest. header_count ''WARC-Type'' (rec_headers (xs ! i)) \<le> 1"
  shows "unwrap_target_uri (xs ! i0) = Inr (written (process it xs) ! i0)
    \<and> is_response (written (process it xs) ! i0)
    \<and> (\<forall>i\<in>set rest.
          get_header ''WARC-Type'' (rec_headers (written (process it xs) ! i)) = Some ''revisit''
          \<and> rec_type (written (process it xs) ! i) = Some ''revisit''
          \<and> (\<exists>r. unwrap_target_uri (xs ! i) = Inr r
                \<and> written (process it xs) ! i
                    = record_response_to_revisit r (entry_of (written (process it xs) ! i0))))
    \<and> filter (\<lambda>i. is_response (written (process it xs) ! i)) (i0 # rest) = [i0]
    \<and> filter (\<lambda>i. get_header ''WARC-Type'' (rec_headers (written (process it xs) ! i))
                     = Some ''revisit'') (i0 # rest) = rest
    \<and> Suc (length rest) = length (filter (occurrence (Some dg)) xs)"
proof -
  let ?w = "written (process it xs)"
  let ?P = "\<lambda>i. occurrence (Some dg) (xs ! i)"
  let ?rev = "\<lambda>i. get_header ''WARC-Type'' (rec_headers (?w ! i)) = Some ''revisit''"
  have len: "length ?w = length xs" using assms(1) by (rule process_length_completed)
  note f = filter_upt_Cons [of ?P "length xs" i0 rest, OF assms(2)]
  from f(1) len have i0: "i0 < length ?w" by simp
  note fst = first_occurrence_written [OF i0 f(2) f(3)]
  from fst(2) have resp0: "is_response (?w ! i0)" by (simp add: occurrence_def)
  then have nrev0: "\<not> ?rev i0" by (simp add: is_response_def)
  have later: "?rev i \<and> rec_type (?w ! i) = Some ''revisit''
      \<and> (\<exists>r. unwrap_target_uri (xs ! i) = Inr r
            \<and> ?w ! i = record_response_to_revisit r (entry_of (?w ! i0)))"
    if "i \<in> set rest" for i
  proof -
    from that f(4) have i: "i0 < i" "i < length xs" "?P i" by simp_all
    from i(2) len have "i < length ?w" by simp
    from later_occurrence_written [OF this i(3) i(1) f(2) f(3)] obtain r where
      r: "unwrap_target_uri (xs ! i) = Inr r"
      and rv: "?w ! i = record_response_to_revisit r (entry_of (?w ! i0))"
      by blast
    from that assms(3) unwrap_target_uri_count [OF r, of "''WARC-Type''"]
    have "header_count ''WARC-Type'' (rec_headers r) \<le> 1" by simp
    from revisit_headers_type [OF this, of "entry_of (?w ! i0)"]
    have "?rev i" by (simp add: rv revisit_fields)
    with r rv show ?thesis by (auto simp: revisit_fields)
  qed
  then have rev_rest: "\<forall>i\<in>set rest. ?rev i" by blast
  then have nresp_rest: "\<forall>i\<in>set rest. \<not> is_response (?w ! i)"
    by (simp add: is_response_def)
  from resp0 nresp_rest have one: "filter (\<lambda>i. is_response (?w ! i)) (i0 # rest) = [i0]"
    by simp
  from nrev0 rev_rest have others: "filter ?rev (i0 # rest) = rest" by simp
  have "Suc (length rest) = length (filter ?P [0..<length xs])" by (simp add: assms(2))
  also have "\<dots> = length (filter (occurrence (Some dg)) xs)" by (rule length_filter_nth)
  finally have n: "Suc (length rest) = length (filter (occurrence (Some dg)) xs)" .
  from fst(1) resp0 later one others n show ?thesis by blast
qed

theorem first_occurrence_retained_witness:
  "unwrap_target_uri response_1 = Inr response_1_written
   \<and> is_response response_1_written
   \<and> get_header ''WARC-Type'' (rec_headers response_3_written) = Some ''revisit''
   \<and> \<not> is_response response_3_written
   \<and> length (filter (occurrence (Some ''sha1:A'')) [response_1, response_2, response_3]) = 2"
proof -
  let ?xs = "[response_1, response_2, response_3]"
  let ?w = "written (process example_item ?xs)"
  have once: "\<forall>i\<in>set [2]. header_count ''WARC-Type'' (rec_headers (?xs ! i)) \<le> 1"
    by (simp add: response_3_def lower_names)
  note th = first_occurrence_retained [OF scenario_run(1) scenario_occurrences once]
  from th have a: "unwrap_target_uri (?xs ! 0) = Inr (?w ! 0)" by blast
  from th have b: "is_response (?w ! 0)" by blast
  from th have c: "get_header ''WARC-Type'' (rec_headers (?w ! 2)) = Some ''revisit''" by simp
  from th have d: "filter (\<lambda>i. is_response (?w ! i)) [0, 2] = [0]" by blast
  from th have e: "Suc (length [2::nat]) = length (filter (occurrence (Some ''sha1:A'')) ?xs)"
    by blast
  from d b have f: "\<not> is_response (?w ! 2)" by (simp split: if_splits)
  from a b c f e show ?thesis by (simp add: scenario_run)
qed

section \<open>The headers of a revisit record\<close>

lemma no_repeatedD:
  assumes "no_repeated revisit_names hs"
  shows "header_count ''WARC-Refers-To'' hs \<le> 1"
    and "header_count ''WARC-Refers-To-Date'' hs \<le> 1"
    and "header_count ''WARC-Refers-To-Target-URI'' hs \<le> 1"
    and "header_count ''WARC-Type'' hs \<le> 1"
    and "header_count ''WARC-Truncated'' hs \<le> 1"
    and "header_count ''WARC-Profile'' hs \<le> 1"
    and "header_count ''WARC-Block-Digest'' hs \<le> 1"
    and "header_count ''Content-Length'' hs \<le> 1"
  using assms by (simp_all add: no_repeated_def revisit_names_def)

lemma revisit_headers_values:
  assumes "no_repeated revisit_names hs"
  shows "get_header ''WARC-Refers-To'' (revisit_headers hs (d0, d1, d2)) = d0"
    and "get_header ''WARC-Refers-To-Date'' (revisit_headers hs (d0, d1, d2)) = d1"
    and "get_header ''WARC-Refers-To-Target-URI'' (revisit_headers hs (d0, d1, d2)) = d2"
    and "get_header ''WARC-Type'' (revisit_headers hs (d0, d1, d2)) = Some ''revisit''"
    and "get_header ''WARC-Truncated'' (revisit_headers hs (d0, d1, d2)) = Some ''length''"
    and "get_header ''WARC-Profile'' (revisit_headers hs (d0, d1, d2))
          = Some ''http://netpreserve.org/warc/1.0/revisit/identical-payload-digest''"
    and "header_count ''WARC-Block-Digest'' (revisit_headers hs (d0, d1, d2)) = 0"
    and "header_count ''Content-Length'' (revisit_headers hs (d0, d1, d2)) = 0"
  using no_repeatedD [OF assms]
  by (simp_all add: revisit_headers_def get_header_replace_header_other
      get_header_remove_header_other get_header_replace_header_same
      header_count_replace_header header_count_remove_header lower_names)

text \<open>
  C3 (as stated): every revisit record built by the pass carries no \<open>Content-Length\<close>
  header (and reads the listed values under the listed names). \<open>remove_header\<close> deletes
  one header and \<open>replace_header\<close> overwrites one, the last of the name, while
  \<open>get_header\<close> reads the first: a response in which \<open>Content-Length\<close> occurs twice is
  converted into a revisit record that still carries one.
\<close>

theorem repeated_content_length_survives:
  "rec_type (written (process example_item [response_1, response_3_repeated]) ! 1)
     = Some ''revisit''
   \<and> get_header ''WARC-Refers-To''
         (rec_headers (written (process example_item [response_1, response_3_repeated]) ! 1))
       = Some ''<urn:uuid:1>''
   \<and> get_header ''Content-Length''
         (rec_headers (written (process example_item [response_1, response_3_repeated]) ! 1))
       = Some ''20''
   \<and> header_count ''Content-Length''
         (rec_headers (written (process example_item [response_1, response_3_repeated]) ! 1))
       \<noteq> 0"
  by (simp add: run_defs example_item_def response_1_def response_3_repeated_def
      header_count_def)

text \<open>
  C3 (amended): every revisit record that the pass builds from a response whose header
  names are ASCII and in which none of the eight names \<open>WARC-Refers-To\<close>,
  \<open>WARC-Refers-To-Date\<close>, \<open>WARC-Refers-To-Target-URI\<close>, \<open>WARC-Type\<close>, \<open>WARC-Truncated\<close>,
  \<open>WARC-Profile\<close>, \<open>WARC-Block-Digest\<close> and \<open>Content-Length\<close> occurs more than once has
  \<open>WARC-Refers-To\<close>, \<open>WARC-Refers-To-Date\<close> and \<open>WARC-Refers-To-Target-URI\<close> equal to the
  \<open>WARC-Record-ID\<close>, \<open>WARC-Date\<close> and \<open>WARC-Target-URI\<close> of the first response with the
  same digest as that one was written, has \<open>WARC-Type\<close> \<open>revisit\<close>, \<open>WARC-Truncated\<close>
  \<open>length\<close> and the identical-payload-digest profile, and carries neither
  \<open>WARC-Block-Digest\<close> nor \<open>Content-Length\<close>. Here the record at \<open>j\<close> is the first
  response with the digest and the one at \<open>i\<close> a later one. The names are required to be
  ASCII because only there does \<open>lower\<close> stand for \<open>str.lower\<close> where a name holds a
  \<open>k\<close>: a header spelt \<open>WARC-Bloc\<close>, KELVIN SIGN, \<open>-Digest\<close> counts as a second
  \<open>WARC-Block-Digest\<close> in Python.
\<close>

theorem revisit_refers_to_first:
  assumes "i < length (written (process it xs))"
    and "occurrence k (xs ! i)"
    and "j < i" and "occurrence k (xs ! j)" and "\<forall>j'<j. \<not> occurrence k (xs ! j')"
    and "no_repeated revisit_names (rec_headers (xs ! i))"
    and "ascii_names (rec_headers (xs ! i))"
  shows "unwrap_target_uri (xs ! j) = Inr (written (process it xs) ! j)
    \<and> rec_type (written (process it xs) ! i) = Some ''revisit''
    \<and> get_header ''WARC-Refers-To'' (rec_headers (written (process it xs) ! i))
        = get_header ''WARC-Record-ID'' (rec_headers (written (process it xs) ! j))
    \<and> get_header ''WARC-Refers-To-Date'' (rec_headers (written (process it xs) ! i))
        = get_header ''WARC-Date'' (rec_headers (written (process it xs) ! j))
    \<and> get_header ''WARC-Refers-To-Target-URI'' (rec_headers (written (process it xs) ! i))
        = get_header ''WARC-Target-URI'' (rec_headers (written (process it xs) ! j))
    \<and> get_header ''WARC-Type'' (rec_headers (written (process it xs) ! i)) = Some ''revisit''
    \<and> get_header ''WARC-Truncated'' (rec_headers (written (process it xs) ! i)) = Some ''length''
    \<and> get_header ''WARC-Profile'' (rec_headers (written (process it xs) ! i))
        = Some ''http://netpreserve.org/warc/1.0/revisit/identical-payload-digest''
    \<and> header_count ''WARC-Block-Digest'' (rec_headers (written (process it xs) ! i)) = 0
    \<and> header_count ''Content-Length'' (rec_headers (written (process it xs) ! i)) = 0"
proof -
  let ?w = "written (process it xs)"
  from assms(1,3) have j: "j < length ?w" by simp
  note fst = first_occurrence_written [OF j assms(4,5)]
  from later_occurrence_written [OF assms(1-5)] obtain r where
    r: "unwrap_target_uri (xs ! i) = Inr r"
    and rv: "?w ! i = record_response_to_revisit r (entry_of (?w ! j))"
    by blast
  have "no_repeated revisit_names (rec_headers r)"
    using assms(6) unwrap_target_uri_count [OF r] by (simp add: no_repeated_def)
  note v = revisit_headers_values [OF this]
  have hs: "rec_headers (?w ! i) = revisit_headers (rec_headers r)
      (get_header ''WARC-Record-ID'' (rec_headers (?w ! j)),
       get_header ''WARC-Date'' (rec_headers (?w ! j)),
       get_header ''WARC-Target-URI'' (rec_headers (?w ! j)))"
    by (simp add: rv revisit_fields entry_of_def)
  have "rec_type (?w ! i) = Some ''revisit''" by (simp add: rv revisit_fields)
  with fst(1) show ?thesis unfolding hs by (simp add: v)
qed

theorem revisit_refers_to_first_witness:
  "rec_type response_3_written = Some ''revisit''
   \<and> get_header ''WARC-Refers-To'' (rec_headers response_3_written)
       = get_header ''WARC-Record-ID'' (rec_headers response_1_written)
   \<and> get_header ''WARC-Refers-To-Date'' (rec_headers response_3_written)
       = get_header ''WARC-Date'' (rec_headers response_1_written)
   \<and> get_header ''WARC-Refers-To-Target-URI'' (rec_headers response_3_written)
       = get_header ''WARC-Target-URI'' (rec_headers response_1_written)
   \<and> get_header ''WARC-Type'' (rec_headers response_3_written) = Some ''revisit''
   \<and> header_count ''WARC-Block-Digest'' (rec_headers response_3_written) = 0
   \<and> header_count ''Content-Length'' (rec_headers response_3_written) = 0"
proof -
  have occ: "occurrence (Some ''sha1:A'') ([response_1, response_2, response_3] ! 2)"
    "occurrence (Some ''sha1:A'') ([response_1, response_2, response_3] ! 0)"
    by (simp_all add: occurrence_def is_response_def payload_digest_def response_1_def
        response_3_def lower_names)
  have nr: "no_repeated revisit_names (rec_headers ([response_1, response_2, response_3] ! 2))"
    by (simp add: no_repeated_def revisit_names_def response_3_def lower_names)
  have asc: "ascii_names (rec_headers ([response_1, response_2, response_3] ! 2))"
    by (simp add: ascii_names_def response_3_def)
  from revisit_refers_to_first
    [of 2 example_item "[response_1, response_2, response_3]" "Some ''sha1:A''" 0] occ nr asc
  show ?thesis by (simp add: scenario_run)
qed

end
